theory Spec2Isabelle
  imports Main "HOL-Library.AList"
begin

section \<open>Data model (types.ts)\<close>

datatype RenameMethod = BankAccount | Custom | AI

datatype FileProcessStatus = Idle | Processing | Success | Error | NoMatch

text \<open>
  A browser \<^verbatim>\<open>File\<close>: the fields the application reads. \<^verbatim>\<open>lastModified\<close> is an
  integral number of milliseconds (a JavaScript number holding an integer); the payload is
  a sequence of bytes.
\<close>

record File =
  name :: string
  lastModified :: int
  content :: string

text \<open>
  \<^verbatim>\<open>interface ProcessedFile\<close>. The field \<^verbatim>\<open>id\<close> is called \<open>id_pf\<close> here because
  \<open>id\<close> is the identity function of HOL; the optional \<^verbatim>\<open>message\<close> is an option.
\<close>

record ProcessedFile =
  id_pf :: string
  originalFile :: File
  originalName :: string
  newName :: string
  status :: FileProcessStatus
  message :: "string option"

text \<open>
  \<^verbatim>\<open>type LogEntry\<close>: the message and its severity tag
  (\<^verbatim>\<open>'info' | 'error' | 'success'\<close>). The entry's \<^verbatim>\<open>id\<close> is
  \<^verbatim>\<open>Date.now() + Math.random()\<close>, a wall-clock and random floating-point number that no
  code of the application reads back; it is left out of the model.
\<close>

datatype LogType = T_info | T_error | T_success

record LogEntry =
  message_l :: string
  type_l :: LogType

section \<open>JavaScript values and conversions\<close>

text \<open>
  Number to string, for the integers that template literals interpolate: the decimal
  digits, with a minus sign for a negative number. This is what JavaScript prints for
  every integer of magnitude up to 2 to the power 53, which covers the lengths and counts of the
  application and every modification time in milliseconds for hundreds of millennia
  around 1970. Beyond that magnitude JavaScript prints the shortest digits that read back as
  the same number, padded with zeros, which the model does not reproduce.
\<close>

definition digit :: "nat \<Rightarrow> char" where
  "digit d = char_of (48 + d)"

function show_nat :: "nat \<Rightarrow> string" where
  "show_nat n = (if n < 10 then [digit n] else show_nat (n div 10) @ [digit (n mod 10)])"
  by pat_completeness auto
termination
  by (relation "measure (\<lambda>n. n)") auto

declare show_nat.simps [simp del]

definition show_int :: "int \<Rightarrow> string" where
  "show_int i = (if i < 0 then ''-'' @ show_nat (nat (- i)) else show_nat (nat i))"

text \<open>
  A value that is a string or \<^verbatim>\<open>null\<close>/\<^verbatim>\<open>undefined\<close> is a \<open>string option\<close>. It is
  truthy when it is a non-empty string: the tests \<^verbatim>\<open>!text\<close> and \<^verbatim>\<open>if (newName)\<close> of the
  source are the cases \<open>None\<close>, \<open>Some []\<close> and \<open>Some\<close> of a non-empty string.
\<close>

text \<open>
  What a \<^verbatim>\<open>catch\<close> clause receives: an instance of \<^verbatim>\<open>Error\<close> with its message, or any
  other thrown value.
\<close>

datatype thrown = ErrorObj string | NonError

definition errorMessage_of :: "string \<Rightarrow> thrown \<Rightarrow> string" where
  "errorMessage_of unknown e = (case e of ErrorObj m \<Rightarrow> m | NonError \<Rightarrow> unknown)"

text \<open>\<^verbatim>\<open>s.replace(/\.pdf$/, '')\<close>: without the m flag, \<^verbatim>\<open>$\<close> matches at the end of the input only.\<close>

definition replace_pdf :: "string \<Rightarrow> string" where
  "replace_pdf s =
     (if 4 \<le> length s \<and> drop (length s - 4) s = ''.pdf'' then take (length s - 4) s else s)"

section \<open>External collaborators and application state\<close>

text \<open>
  The vendored zip library: an archive maps entry names to payloads, and
  \<^verbatim>\<open>zip.file(name, data)\<close> adds the entry or replaces the entry of that name.
\<close>

type_synonym JSZip = "(string \<times> File) list"

definition zip_file :: "string \<Rightarrow> File \<Rightarrow> JSZip \<Rightarrow> JSZip" where
  "zip_file n f z = AList.update n f z"

text \<open>
  The asynchronous services the application awaits are parameters of the model. Each
  takes the state of the outside world \<open>'w\<close> (documents, network, the language-model
  service) and returns it changed, together with the value the promise resolves to
  (\<open>Inr\<close>) or the value it rejects with (\<open>Inl\<close>). The services are total: a promise that
  never settles is outside the model. \<open>generateAsync\<close> stands for the steps from
  \<^verbatim>\<open>zip.generateAsync\<close> to \<^verbatim>\<open>link.click()\<close>: \<open>None\<close> when the download was initiated, the
  thrown value otherwise.
\<close>

record 'w services =
  extractTextFromPdf :: "File \<Rightarrow> 'w \<Rightarrow> (thrown + string option) \<times> 'w"
  getNewFilename ::
    "string \<Rightarrow> RenameMethod \<Rightarrow> string \<Rightarrow> string \<Rightarrow> 'w \<Rightarrow> (thrown + string option) \<times> 'w"
  generateAsync :: "JSZip \<Rightarrow> 'w \<Rightarrow> thrown option \<times> 'w"

text \<open>
  The state of \<^verbatim>\<open>App\<close>: the React state variables, the archives offered for download so
  far, and the outside world. The records of \<open>results\<close> are objects that the processing
  loop mutates in place; every array the application publishes holds the same objects, so
  one list of records is their state.
\<close>

record 'w App =
  results :: "ProcessedFile list"
  renameMethod :: RenameMethod
  customPattern :: string
  aiInstructions :: string
  isProcessing :: bool
  logs :: "LogEntry list"
  downloads :: "JSZip list"
  world :: 'w

section \<open>The operations of App\<close>

definition addLog :: "string \<Rightarrow> LogType \<Rightarrow> 'w App \<Rightarrow> 'w App" where
  "addLog m t s = s\<lparr>logs := logs s @ [\<lparr>message_l = m, type_l = t\<rparr>]\<rparr>"

definition newRecord :: "File \<Rightarrow> ProcessedFile" where
  "newRecord file =
     \<lparr>id_pf = name file @ ''-'' @ show_int (lastModified file),
      originalFile = file,
      originalName = name file,
      newName = [],
      status = Idle,
      message = None\<rparr>"

definition handleFilesSelected :: "File list \<Rightarrow> 'w App \<Rightarrow> 'w App" where
  "handleFilesSelected files s =
     (if length files = 0 then s
      else
        let newResults = map newRecord files;
            s1 = s\<lparr>results := newResults\<rparr>;
            s2 = s1\<lparr>logs := []\<rparr>
        in addLog (''Loaded '' @ show_nat (length files) @ '' PDF file(s). Ready for processing.'')
             T_info s2)"

definition clearAll :: "'w App \<Rightarrow> 'w App" where
  "clearAll s = s\<lparr>results := [], logs := []\<rparr>"

text \<open>Assignment to fields of the object \<^verbatim>\<open>updatedResults[i]\<close>.\<close>

definition setRecord :: "nat \<Rightarrow> (ProcessedFile \<Rightarrow> ProcessedFile) \<Rightarrow> 'w App \<Rightarrow> 'w App" where
  "setRecord i f s = s\<lparr>results := (results s)[i := f (results s ! i)]\<rparr>"

text \<open>The \<^verbatim>\<open>catch\<close> block of the processing loop.\<close>

definition catchBlock :: "nat \<Rightarrow> thrown \<Rightarrow> 'w App \<Rightarrow> 'w App" where
  "catchBlock i e s =
     (let errorMessage = errorMessage_of ''An unknown error occurred.'' e;
          s1 = setRecord i (\<lambda>r. r\<lparr>status := Error, message := Some errorMessage\<rparr>) s
      in addLog (''Error processing '' @ originalName (results s1 ! i) @ '': '' @ errorMessage)
           T_error s1)"

text \<open>One iteration of the loop of \<^verbatim>\<open>processFiles\<close>, for an index within the array.\<close>

definition loopBody :: "'w services \<Rightarrow> nat \<Rightarrow> 'w App \<Rightarrow> 'w App" where
  "loopBody sv i s0 =
     (let s1 = setRecord i (\<lambda>r. r\<lparr>status := Processing, newName := []\<rparr>) s0;
          s2 = addLog (''Processing: '' @ originalName (results s1 ! i)) T_info s1
      in case extractTextFromPdf sv (originalFile (results s2 ! i)) (world s2) of
           (Inl e, w) \<Rightarrow> catchBlock i e (s2\<lparr>world := w\<rparr>)
         | (Inr txt, w) \<Rightarrow>
             (case txt of
                None \<Rightarrow> catchBlock i (ErrorObj ''Could not extract text from PDF.'') (s2\<lparr>world := w\<rparr>)
              | Some t \<Rightarrow>
                  if t = [] then
                    catchBlock i (ErrorObj ''Could not extract text from PDF.'') (s2\<lparr>world := w\<rparr>)
                  else
                    (case getNewFilename sv t (renameMethod s2) (customPattern s2)
                            (aiInstructions s2) w of
                       (Inl e, w') \<Rightarrow> catchBlock i e (s2\<lparr>world := w'\<rparr>)
                     | (Inr nn, w') \<Rightarrow>
                         (case nn of
                            None \<Rightarrow>
                              (let s3 = setRecord i (\<lambda>r. r\<lparr>status := NoMatch\<rparr>) (s2\<lparr>world := w'\<rparr>)
                               in addLog (''No match found for: '' @ originalName (results s3 ! i))
                                    T_error s3)
                          | Some n \<Rightarrow>
                              if n = [] then
                                (let s3 = setRecord i (\<lambda>r. r\<lparr>status := NoMatch\<rparr>) (s2\<lparr>world := w'\<rparr>)
                                 in addLog (''No match found for: '' @ originalName (results s3 ! i))
                                      T_error s3)
                              else
                                (let s3 = setRecord i
                                       (\<lambda>r. r\<lparr>newName := n @ ''.pdf'', status := Success\<rparr>)
                                       (s2\<lparr>world := w'\<rparr>)
                                 in addLog (''Found name for '' @ originalName (results s3 ! i)
                                       @ '' -> '' @ newName (results s3 ! i)) T_success s3)))))"

text \<open>The loop body assigns to fields of one record; the array keeps its length.\<close>

lemma length_results_loopBody: "length (results (loopBody sv i s)) = length (results s)"
  by (simp add: loopBody_def catchBlock_def setRecord_def addLog_def Let_def
      split: prod.splits sum.splits option.splits)

function processLoop :: "'w services \<Rightarrow> nat \<Rightarrow> 'w App \<Rightarrow> 'w App" where
  "processLoop sv i s =
     (if i < length (results s) then processLoop sv (Suc i) (loopBody sv i s) else s)"
  by pat_completeness auto
termination
  by (relation "measure (\<lambda>(sv, i, s). length (results s) - i)")
     (auto simp: length_results_loopBody)

declare processLoop.simps [simp del]

text \<open>
  The loop over \<^verbatim>\<open>filesToZip\<close> in \<^verbatim>\<open>handleDownloadZip\<close>: the calls
  \<^verbatim>\<open>zip.file(finalName, result.originalFile)\<close> it makes, in order. \<open>nameCounts\<close> is the
  dictionary of the source; an entry is truthy when it is present and not zero. (Keys that
  are properties of \<^verbatim>\<open>Object.prototype\<close> are not modelled: every name \<^verbatim>\<open>processFiles\<close>
  stores ends in \<^verbatim>\<open>.pdf\<close>.)
\<close>

fun zipLoop :: "(string \<rightharpoonup> nat) \<Rightarrow> ProcessedFile list \<Rightarrow> (string \<times> File) list" where
  "zipLoop nameCounts [] = []"
| "zipLoop nameCounts (result # rest) =
     (case nameCounts (newName result) of
        None \<Rightarrow>
          (newName result, originalFile result)
            # zipLoop (nameCounts(newName result \<mapsto> 1)) rest
      | Some count \<Rightarrow>
          if count \<noteq> 0 then
            (replace_pdf (newName result) @ ''_'' @ show_nat count @ ''.pdf'', originalFile result)
              # zipLoop (nameCounts(newName result \<mapsto> count + 1)) rest
          else
            (newName result, originalFile result)
              # zipLoop (nameCounts(newName result \<mapsto> 1)) rest)"

definition zipOf :: "(string \<times> File) list \<Rightarrow> JSZip" where
  "zipOf calls = foldl (\<lambda>z (n, f). zip_file n f z) [] calls"

definition handleDownloadZip :: "'w services \<Rightarrow> 'w App \<Rightarrow> 'w App" where
  "handleDownloadZip sv s =
     (let filesToZip = filter (\<lambda>r. status r = Success) (results s) in
      if length filesToZip = 0 then
        addLog ''No files were successfully renamed to include in a ZIP.'' T_error s
      else
        let s1 = addLog (''Creating ZIP archive with '' @ show_nat (length filesToZip) @ '' files...'')
                   T_info s;
            s2 = s1\<lparr>isProcessing := True\<rparr>;
            zip = zipOf (zipLoop Map.empty filesToZip)
        in case generateAsync sv zip (world s2) of
             (None, w) \<Rightarrow>
               (addLog ''ZIP file download initiated.'' T_success
                  (s2\<lparr>world := w, downloads := downloads s2 @ [zip]\<rparr>))\<lparr>isProcessing := False\<rparr>
           | (Some e, w) \<Rightarrow>
               (addLog (''Failed to create ZIP file: ''
                    @ errorMessage_of ''An unknown ZIP error occurred.'' e) T_error
                  (s2\<lparr>world := w\<rparr>))\<lparr>isProcessing := False\<rparr>)"

definition processFiles :: "'w services \<Rightarrow> bool \<Rightarrow> 'w App \<Rightarrow> 'w App" where
  "processFiles sv previewOnly s =
     (if length (results s) = 0 then
        addLog ''No files to process. Please upload PDFs first.'' T_error s
      else
        let s1 = s\<lparr>isProcessing := True\<rparr>;
            s2 = (if previewOnly then addLog ''Starting rename PREVIEW...'' T_info s1
                  else addLog ''Starting file processing for download...'' T_info s1);
            s3 = processLoop sv 0 s2;
            s4 = addLog ''Processing complete.'' T_info s3;
            s5 = s4\<lparr>isProcessing := False\<rparr>
        in if \<not> previewOnly then handleDownloadZip sv s5 else s5)"

section \<open>Sample data\<close>

text \<open>
  Concrete files, collaborators and states, on which the theorems below are instantiated.
  The sample text extraction fails on an empty document and otherwise returns its bytes as
  text; the sample naming strategy finds no name in the text \<open>?\<close> and otherwise returns the
  text itself. The world of the samples counts the calls made to the collaborators.
\<close>

definition file_1 :: File where
  "file_1 = \<lparr>name = ''scan1.pdf'', lastModified = 1000, content = ''INV-7''\<rparr>"

definition file_2 :: File where
  "file_2 = \<lparr>name = ''scan2.pdf'', lastModified = 2000, content = ''INV-7''\<rparr>"

definition file_3 :: File where
  "file_3 = \<lparr>name = ''scan3.pdf'', lastModified = 3000, content = ''INV-7_1''\<rparr>"

definition file_broken :: File where
  "file_broken = \<lparr>name = ''broken.pdf'', lastModified = 4000, content = []\<rparr>"

definition file_blank :: File where
  "file_blank = \<lparr>name = ''blank.pdf'', lastModified = 5000, content = ''?''\<rparr>"

definition file_1_copy :: File where
  "file_1_copy = \<lparr>name = ''scan1.pdf'', lastModified = 1000, content = ''OTHER''\<rparr>"

definition sample_services :: "nat services" where
  "sample_services =
     \<lparr>extractTextFromPdf = (\<lambda>f w.
        (if content f = [] then Inl (ErrorObj ''Invalid PDF structure'')
         else Inr (Some (content f)), Suc w)),
      getNewFilename = (\<lambda>t m p a w. (if t = ''?'' then Inr None else Inr (Some t), Suc w)),
      generateAsync = (\<lambda>z w. (None, Suc w))\<rparr>"

definition failing_zip_services :: "nat services" where
  "failing_zip_services =
     sample_services\<lparr>generateAsync := (\<lambda>z w. (Some (ErrorObj ''quota exceeded''), Suc w))\<rparr>"

definition app_0 :: "nat App" where
  "app_0 =
     \<lparr>results = [], renameMethod = AI, customPattern = ''No: ([0-9]+)'',
      aiInstructions = ''find the invoice number'', isProcessing = False, logs = [],
      downloads = [], world = 0\<rparr>"

definition offline_services :: "nat services" where
  "offline_services =
     sample_services\<lparr>extractTextFromPdf := (\<lambda>f w. (Inl (ErrorObj ''Failed to fetch''), Suc w))\<rparr>"

definition app_loaded :: "nat App" where
  "app_loaded = handleFilesSelected [file_1, file_broken, file_blank, file_2, file_3] app_0"

definition app_processed :: "nat App" where
  "app_processed = processFiles sample_services True app_loaded"

definition app_failed_once :: "nat App" where
  "app_failed_once = processFiles offline_services True (handleFilesSelected [file_1] app_0)"

section \<open>Properties of one record's processing\<close>

text \<open>
  What one iteration of the loop makes of a record: identity, payload and original name
  stay; the record ends as Success with a name of the form \<open>n.pdf\<close>, as NoMatch with
  an empty name, or as Error with an empty name and a message. Only the Error outcome
  assigns the message.
\<close>

definition processed_from :: "ProcessedFile \<Rightarrow> ProcessedFile \<Rightarrow> bool" where
  "processed_from r r' \<longleftrightarrow>
     id_pf r' = id_pf r \<and> originalFile r' = originalFile r \<and> originalName r' = originalName r \<and>
     (status r' = Success \<and> (\<exists>n. n \<noteq> [] \<and> newName r' = n @ ''.pdf'') \<and> message r' = message r
      \<or> status r' = NoMatch \<and> newName r' = [] \<and> message r' = message r
      \<or> status r' = Error \<and> newName r' = [] \<and> message r' \<noteq> None)"

text \<open>The records that \<^verbatim>\<open>handleDownloadZip\<close> selects (its \<^verbatim>\<open>filesToZip\<close>).\<close>

definition successRecords :: "'w App \<Rightarrow> ProcessedFile list" where
  "successRecords s = filter (\<lambda>r. status r = Success) (results s)"

text \<open>
  The naming rule of the archive loop, for stating what the loop computes: the count
  that \<open>nameCounts\<close> holds for a name (zero when absent), and the final name of a
  record whose computed name has been seen \<open>k\<close> times before.
\<close>

definition count_of :: "(string \<rightharpoonup> nat) \<Rightarrow> string \<Rightarrow> nat" where
  "count_of m x = (case m x of None \<Rightarrow> 0 | Some c \<Rightarrow> c)"

definition finalName :: "string \<Rightarrow> nat \<Rightarrow> string" where
  "finalName x k = (if k = 0 then x else replace_pdf x @ ''_'' @ show_nat k @ ''.pdf'')"

text \<open>
  Two states of the same batch in the same surroundings: the same documents in the same
  order, the same configuration, log, downloads and outside world. The status, the new
  name and the message of a record are free, except that the records before position
  \<open>i\<close> agree on status and new name.
\<close>

definition rerun_rel :: "nat \<Rightarrow> 'w App \<Rightarrow> 'w App \<Rightarrow> bool" where
  "rerun_rel i s s' \<longleftrightarrow>
     length (results s') = length (results s) \<and> world s' = world s \<and>
     renameMethod s' = renameMethod s \<and> customPattern s' = customPattern s \<and>
     aiInstructions s' = aiInstructions s \<and> logs s' = logs s \<and>
     isProcessing s' = isProcessing s \<and> downloads s' = downloads s \<and>
     (\<forall>j < length (results s).
        id_pf (results s' ! j) = id_pf (results s ! j) \<and>
        originalFile (results s' ! j) = originalFile (results s ! j) \<and>
        originalName (results s' ! j) = originalName (results s ! j) \<and>
        (j < i \<longrightarrow> status (results s' ! j) = status (results s ! j) \<and>
                  newName (results s' ! j) = newName (results s ! j)))"

text \<open>
  The state in which the loop of \<^verbatim>\<open>processFiles\<close> reaches index \<open>j\<close>: the start entry is
  logged, the processing flag is set, and the loop body has run on the indices below \<open>j\<close>.
\<close>

definition stateBefore :: "'w services \<Rightarrow> bool \<Rightarrow> 'w App \<Rightarrow> nat \<Rightarrow> 'w App" where
  "stateBefore sv previewOnly s j =
     foldl (\<lambda>t i. loopBody sv i t)
       (addLog (if previewOnly then ''Starting rename PREVIEW...''
                else ''Starting file processing for download...'') T_info
          (s\<lparr>isProcessing := True\<rparr>))
       [0..<j]"

section \<open>Numbers as text\<close>

lemma digit_eval:
  "digit 0 = CHR ''0''" "digit 1 = CHR ''1''" "digit 2 = CHR ''2''" "digit 3 = CHR ''3''"
  "digit 4 = CHR ''4''" "digit 5 = CHR ''5''" "digit 6 = CHR ''6''" "digit 7 = CHR ''7''"
  "digit 8 = CHR ''8''" "digit 9 = CHR ''9''" "digit (Suc 0) = CHR ''1''"
  by code_simp+

lemma of_char_digit: "d < 10 \<Longrightarrow> of_char (digit d) = 48 + d"
  by (simp add: digit_def)

lemma digit_inj:
  assumes "a < 10" "b < 10" "digit a = digit b"
  shows "a = b"
proof -
  from assms(3) have "of_char (digit a) = (of_char (digit b) :: nat)"
    by (rule arg_cong)
  then have "48 + a = 48 + b"
    by (simp only: of_char_digit[OF assms(1)] of_char_digit[OF assms(2)])
  then show ?thesis by simp
qed

lemma digit_not_hyphen:
  assumes "d < 10"
  shows "digit d \<noteq> CHR ''-''"
proof
  assume "digit d = CHR ''-''"
  then have "of_char (digit d) = (of_char (CHR ''-'') :: nat)"
    by (rule arg_cong)
  then have "48 + d = (45 :: nat)"
    by (simp only: of_char_digit[OF assms]) simp
  then show False by simp
qed

lemma show_nat_small: "n < 10 \<Longrightarrow> show_nat n = [digit n]"
  by (subst show_nat.simps) simp

lemma show_nat_large: "\<not> n < 10 \<Longrightarrow> show_nat n = show_nat (n div 10) @ [digit (n mod 10)]"
  by (subst show_nat.simps) simp

lemma show_nat_no_hyphen: "CHR ''-'' \<notin> set (show_nat n)"
proof (induction n rule: show_nat.induct)
  case (1 n)
  show ?case
  proof (cases "n < 10")
    case True
    then show ?thesis using digit_not_hyphen[of n] by (simp add: show_nat_small)
  next
    case False
    have "n mod 10 < 10" by simp
    then have "digit (n mod 10) \<noteq> CHR ''-''" by (rule digit_not_hyphen)
    then show ?thesis using 1[OF False] by (simp add: show_nat_large[OF False])
  qed
qed

lemma show_nat_nonempty: "show_nat n \<noteq> []"
  by (cases "n < 10") (simp_all add: show_nat_small show_nat_large)

lemma show_nat_length: "length (show_nat n) = 1 \<longleftrightarrow> n < 10"
  using show_nat_nonempty[of "n div 10"]
  by (cases "n < 10") (simp_all add: show_nat_small show_nat_large)

lemma show_nat_inj: "show_nat n = show_nat m \<Longrightarrow> n = m"
proof (induction n arbitrary: m rule: show_nat.induct)
  case (1 n)
  show ?case
  proof (cases "n < 10")
    case True
    then have "length (show_nat m) = 1" using "1.prems"[symmetric] show_nat_length[of n] by simp
    then have m: "m < 10" using show_nat_length[of m] by simp
    have "[digit n] = [digit m]"
      using "1.prems" show_nat_small[OF True] show_nat_small[OF m] by simp
    then have "digit n = digit m" by simp
    then show ?thesis by (rule digit_inj[OF True m])
  next
    case False
    then have "length (show_nat m) \<noteq> 1" using "1.prems"[symmetric] show_nat_length[of n] by simp
    then have m: "\<not> m < 10" using show_nat_length[of m] by simp
    have "show_nat (n div 10) @ [digit (n mod 10)] = show_nat (m div 10) @ [digit (m mod 10)]"
      using "1.prems" show_nat_large[OF False] show_nat_large[OF m] by simp
    then have a: "show_nat (n div 10) = show_nat (m div 10)"
      and b: "digit (n mod 10) = digit (m mod 10)"
      by simp_all
    from a have d: "n div 10 = m div 10" by (rule "1.IH"[OF False])
    have "n mod 10 < 10" "m mod 10 < 10" by simp_all
    then have e: "n mod 10 = m mod 10" using b by (rule digit_inj)
    have "n div 10 * 10 + n mod 10 = m div 10 * 10 + m mod 10" by (simp only: d e)
    then show ?thesis by (simp only: div_mult_mod_eq)
  qed
qed

lemma split_at_last:
  "xs @ c # us = ys @ c # vs \<Longrightarrow> c \<notin> set us \<Longrightarrow> c \<notin> set vs \<Longrightarrow> xs = ys \<and> us = vs"
proof (induction xs arbitrary: ys)
  case Nil
  then show ?case by (cases ys) auto
next
  case (Cons x xs)
  then show ?case by (cases ys) auto
qed

lemma id_pf_inj:
  assumes "0 \<le> lastModified f" "0 \<le> lastModified g"
    and "id_pf (newRecord f) = id_pf (newRecord g)"
  shows "name f = name g \<and> lastModified f = lastModified g"
proof -
  from assms have "name f @ CHR ''-'' # show_nat (nat (lastModified f))
      = name g @ CHR ''-'' # show_nat (nat (lastModified g))"
    by (simp add: newRecord_def show_int_def)
  then have "name f = name g \<and> show_nat (nat (lastModified f)) = show_nat (nat (lastModified g))"
    by (rule split_at_last) (rule show_nat_no_hyphen)+
  then show ?thesis using show_nat_inj assms(1,2) by fastforce
qed

section \<open>The processing loop\<close>

lemma loopBody_results:
  assumes "i < length (results s)"
  shows "results (loopBody sv i s) = (results s)[i := results (loopBody sv i s) ! i]"
    and "processed_from (results s ! i) (results (loopBody sv i s) ! i)"
  using assms
  by (auto simp: loopBody_def catchBlock_def setRecord_def addLog_def Let_def processed_from_def
      split: prod.splits sum.splits option.splits)

lemma loopBody_frame:
  "renameMethod (loopBody sv i s) = renameMethod s"
  "customPattern (loopBody sv i s) = customPattern s"
  "aiInstructions (loopBody sv i s) = aiInstructions s"
  "isProcessing (loopBody sv i s) = isProcessing s"
  "downloads (loopBody sv i s) = downloads s"
  by (simp_all add: loopBody_def catchBlock_def setRecord_def addLog_def Let_def
      split: prod.splits sum.splits option.splits)

lemma processLoop_stop: "\<not> i < length (results s) \<Longrightarrow> processLoop sv i s = s"
  by (subst processLoop.simps) simp

lemma processLoop_step:
  "i < length (results s) \<Longrightarrow> processLoop sv i s = processLoop sv (Suc i) (loopBody sv i s)"
  by (subst processLoop.simps) simp

lemma processLoop_results:
  "i \<le> length (results s) \<Longrightarrow>
   length (results (processLoop sv i s)) = length (results s) \<and>
   (\<forall>j < i. results (processLoop sv i s) ! j = results s ! j) \<and>
   (\<forall>j. i \<le> j \<and> j < length (results s) \<longrightarrow>
      processed_from (results s ! j) (results (processLoop sv i s) ! j))"
proof (induction sv i s rule: processLoop.induct)
  case (1 sv i s)
  show ?case
  proof (cases "i < length (results s)")
    case False
    then show ?thesis using "1.prems" by (auto simp: processLoop_stop)
  next
    case True
    let ?t = "loopBody sv i s"
    have len: "length (results ?t) = length (results s)" by (rule length_results_loopBody)
    have upd: "results ?t = (results s)[i := results ?t ! i]"
      and pf: "processed_from (results s ! i) (results ?t ! i)"
      using loopBody_results[OF True] by blast+
    have other: "results ?t ! j = results s ! j" if "j \<noteq> i" for j
      using that by (subst upd) simp
    have IH: "length (results (processLoop sv (Suc i) ?t)) = length (results ?t) \<and>
      (\<forall>j < Suc i. results (processLoop sv (Suc i) ?t) ! j = results ?t ! j) \<and>
      (\<forall>j. Suc i \<le> j \<and> j < length (results ?t) \<longrightarrow>
         processed_from (results ?t ! j) (results (processLoop sv (Suc i) ?t) ! j))"
      using "1.IH"[OF True] True len by simp
    have unf: "processLoop sv i s = processLoop sv (Suc i) ?t"
      using True by (rule processLoop_step)
    show ?thesis
    proof (intro conjI allI impI)
      show "length (results (processLoop sv i s)) = length (results s)"
        using IH len unf by simp
    next
      fix j assume "j < i"
      then show "results (processLoop sv i s) ! j = results s ! j"
        using IH other[of j] unf by simp
    next
      fix j assume j: "i \<le> j \<and> j < length (results s)"
      show "processed_from (results s ! j) (results (processLoop sv i s) ! j)"
      proof (cases "j = i")
        case True
        from IH have "results (processLoop sv (Suc i) ?t) ! i = results ?t ! i" by simp
        then show ?thesis using pf by (simp only: True unf)
      next
        case False
        then have "Suc i \<le> j \<and> j < length (results ?t)" using j len by simp
        with IH have "processed_from (results ?t ! j) (results (processLoop sv (Suc i) ?t) ! j)"
          by blast
        then show ?thesis by (simp only: other[OF False] unf)
      qed
    qed
  qed
qed

lemma processLoop_frame:
  "renameMethod (processLoop sv i s) = renameMethod s \<and>
   customPattern (processLoop sv i s) = customPattern s \<and>
   aiInstructions (processLoop sv i s) = aiInstructions s \<and>
   isProcessing (processLoop sv i s) = isProcessing s \<and>
   downloads (processLoop sv i s) = downloads s"
proof (induction sv i s rule: processLoop.induct)
  case (1 sv i s)
  show ?case
  proof (cases "i < length (results s)")
    case False
    then show ?thesis by (simp add: processLoop_stop)
  next
    case True
    have unf: "processLoop sv i s = processLoop sv (Suc i) (loopBody sv i s)"
      using True by (rule processLoop_step)
    show ?thesis using "1.IH"[OF True] by (simp add: unf loopBody_frame)
  qed
qed

lemma processLoop_foldl:
  "processLoop sv i s = foldl (\<lambda>t k. loopBody sv k t) s [i..<length (results s)]"
proof (induction sv i s rule: processLoop.induct)
  case (1 sv i s)
  show ?case
  proof (cases "i < length (results s)")
    case False
    then show ?thesis by (simp add: processLoop_stop)
  next
    case True
    have unf: "processLoop sv i s = processLoop sv (Suc i) (loopBody sv i s)"
      using True by (rule processLoop_step)
    show ?thesis using "1.IH"[OF True] True
      by (simp add: unf length_results_loopBody upt_conv_Cons)
  qed
qed

lemma results_handleDownloadZip: "results (handleDownloadZip sv s) = results s"
  by (simp add: handleDownloadZip_def addLog_def Let_def split: prod.splits option.splits)

lemmas sample_defs = file_1_def file_2_def file_3_def file_broken_def file_blank_def
  file_1_copy_def sample_services_def failing_zip_services_def offline_services_def app_0_def
  app_loaded_def

lemmas App_defs = handleFilesSelected_def processFiles_def handleDownloadZip_def loopBody_def
  catchBlock_def setRecord_def addLog_def newRecord_def errorMessage_of_def zipOf_def zip_file_def
  replace_pdf_def show_int_def

lemma results_loaded_preview:
  "results (processFiles sample_services True app_loaded) =
     [(newRecord file_1)\<lparr>newName := ''INV-7.pdf'', status := Success\<rparr>,
      (newRecord file_broken)\<lparr>status := Error, message := Some ''Invalid PDF structure''\<rparr>,
      (newRecord file_blank)\<lparr>status := NoMatch\<rparr>,
      (newRecord file_2)\<lparr>newName := ''INV-7.pdf'', status := Success\<rparr>,
      (newRecord file_3)\<lparr>newName := ''INV-7_1.pdf'', status := Success\<rparr>]"
  by (simp add: App_defs sample_defs processLoop.simps Let_def show_nat_small show_nat_large digit_eval)


lemma results_processFiles:
  assumes "results s \<noteq> []"
  shows "length (results (processFiles sv p s)) = length (results s)"
    and "j < length (results s) \<Longrightarrow>
          processed_from (results s ! j) (results (processFiles sv p s) ! j)"
proof -
  define s2 where "s2 = (if p then addLog ''Starting rename PREVIEW...'' T_info (s\<lparr>isProcessing := True\<rparr>)
      else addLog ''Starting file processing for download...'' T_info (s\<lparr>isProcessing := True\<rparr>))"
  have r2: "results s2 = results s" by (simp add: s2_def addLog_def)
  have rp: "results (processFiles sv p s) = results (processLoop sv 0 s2)"
    using assms by (simp add: processFiles_def Let_def s2_def results_handleDownloadZip addLog_def)
  have inv: "length (results (processLoop sv 0 s2)) = length (results s2) \<and>
     (\<forall>j < 0. results (processLoop sv 0 s2) ! j = results s2 ! j) \<and>
     (\<forall>j. 0 \<le> j \<and> j < length (results s2) \<longrightarrow>
        processed_from (results s2 ! j) (results (processLoop sv 0 s2) ! j))"
    by (rule processLoop_results) simp
  show "length (results (processFiles sv p s)) = length (results s)"
    using inv by (simp add: rp r2)
  show "processed_from (results s ! j) (results (processFiles sv p s) ! j)"
    if "j < length (results s)"
    using inv that by (simp add: rp r2)
qed

lemma processed_in_results:
  assumes "r \<in> set (results (processFiles sv p s))"
  shows "\<exists>r0. processed_from r0 r"
proof (cases "results s = []")
  case True
  then show ?thesis using assms by (simp add: processFiles_def addLog_def)
next
  case False
  from assms obtain j where j: "j < length (results (processFiles sv p s))"
    and r: "r = results (processFiles sv p s) ! j"
    by (auto simp: in_set_conv_nth)
  from j have "j < length (results s)" by (simp add: results_processFiles(1)[OF False])
  then have "processed_from (results s ! j) r"
    unfolding r by (rule results_processFiles(2)[OF False])
  then show ?thesis by blast
qed

text \<open>
  The Success branch of the loop body is taken exactly when the extraction returns a
  non-empty text and the strategy returns a non-empty name, and it stores that name
  followed by \<open>.pdf\<close>. The record at index \<open>j\<close> of the processed batch is the one the
  loop body wrote when the loop stood at \<open>j\<close>.
\<close>

lemma loopBody_Success:
  assumes "i < length (results u)"
    and "extractTextFromPdf sv (originalFile (results u ! i)) (world u) = (Inr (Some t), w)"
    and "t \<noteq> []"
    and "getNewFilename sv t (renameMethod u) (customPattern u) (aiInstructions u) w
           = (Inr (Some n), w')"
    and "n \<noteq> []"
  shows "status (results (loopBody sv i u) ! i) = Success"
    and "newName (results (loopBody sv i u) ! i) = n @ ''.pdf''"
  using assms by (simp_all add: loopBody_def setRecord_def addLog_def Let_def)

lemma loopBody_Success_only:
  assumes "i < length (results u)"
    and "status (results (loopBody sv i u) ! i) = Success"
  shows "\<exists>t w n w'.
     extractTextFromPdf sv (originalFile (results u ! i)) (world u) = (Inr (Some t), w) \<and>
     t \<noteq> [] \<and>
     getNewFilename sv t (renameMethod u) (customPattern u) (aiInstructions u) w
       = (Inr (Some n), w') \<and>
     n \<noteq> []"
  using assms
  by (auto simp: loopBody_def catchBlock_def setRecord_def addLog_def Let_def
      split: prod.splits sum.splits option.splits if_splits)

lemma stateBefore_Suc:
  "stateBefore sv p s (Suc j) = loopBody sv j (stateBefore sv p s j)"
  by (simp add: stateBefore_def)

lemma stateBefore_facts:
  "j \<le> length (results s) \<Longrightarrow>
   length (results (stateBefore sv p s j)) = length (results s) \<and>
   renameMethod (stateBefore sv p s j) = renameMethod s \<and>
   customPattern (stateBefore sv p s j) = customPattern s \<and>
   aiInstructions (stateBefore sv p s j) = aiInstructions s \<and>
   (\<forall>k. j \<le> k \<longrightarrow> results (stateBefore sv p s j) ! k = results s ! k)"
proof (induction j)
  case 0
  then show ?case by (simp add: stateBefore_def addLog_def)
next
  case (Suc j)
  let ?u = "stateBefore sv p s j"
  have IH: "length (results ?u) = length (results s)"
    "renameMethod ?u = renameMethod s" "customPattern ?u = customPattern s"
    "aiInstructions ?u = aiInstructions s"
    "\<forall>k. j \<le> k \<longrightarrow> results ?u ! k = results s ! k"
    using Suc by simp_all
  have j: "j < length (results ?u)" using Suc.prems IH(1) by simp
  have upd: "results (loopBody sv j ?u) = (results ?u)[j := results (loopBody sv j ?u) ! j]"
    by (rule loopBody_results(1)[OF j])
  have "results (loopBody sv j ?u) ! k = results s ! k" if "Suc j \<le> k" for k
  proof -
    have "results (loopBody sv j ?u) ! k = results ?u ! k"
      using that by (subst upd) simp
    then show ?thesis using IH(5) that by simp
  qed
  then show ?case
    using IH by (simp add: stateBefore_Suc length_results_loopBody loopBody_frame)
qed

lemma processFiles_nth:
  assumes "j < length (results s)"
  shows "results (processFiles sv p s) ! j
           = results (loopBody sv j (stateBefore sv p s j)) ! j"
proof -
  let ?s2 = "addLog (if p then ''Starting rename PREVIEW...''
                else ''Starting file processing for download...'') T_info
          (s\<lparr>isProcessing := True\<rparr>)"
  let ?u = "stateBefore sv p s j"
  let ?f = "\<lambda>t i. loopBody sv i t"
  have ne: "results s \<noteq> []" using assms by auto
  have r2: "results ?s2 = results s" by (simp add: addLog_def)
  have rp: "results (processFiles sv p s) = results (processLoop sv 0 ?s2)"
    using ne by (simp add: processFiles_def Let_def results_handleDownloadZip addLog_def)
  have lenu: "length (results ?u) = length (results s)"
    using stateBefore_facts[of j s sv p] assms by simp
  have lenb: "length (results (loopBody sv j ?u)) = length (results s)"
    by (simp add: length_results_loopBody lenu)
  have split: "[0..<length (results s)] = [0..<j] @ j # [Suc j..<length (results s)]"
    using assms by (metis less_imp_le_nat upt_add_eq_append upt_conv_Cons zero_le le_add_diff_inverse plus_nat.add_0)
  have "processLoop sv 0 ?s2 = foldl ?f ?s2 [0..<length (results s)]"
    by (simp add: processLoop_foldl r2)
  also have "\<dots> = foldl ?f (loopBody sv j ?u) [Suc j..<length (results s)]"
    by (subst split) (simp add: stateBefore_def)
  also have "\<dots> = processLoop sv (Suc j) (loopBody sv j ?u)"
    by (simp add: processLoop_foldl lenb)
  finally have e: "processLoop sv 0 ?s2 = processLoop sv (Suc j) (loopBody sv j ?u)" .
  have "\<forall>k < Suc j. results (processLoop sv (Suc j) (loopBody sv j ?u)) ! k
      = results (loopBody sv j ?u) ! k"
    using processLoop_results[of "Suc j" "loopBody sv j ?u" sv] assms lenb by simp
  then show ?thesis by (simp add: rp e)
qed

section \<open>Upload\<close>

text \<open>
  Claim C10. The upload handler called with an empty list of files changes nothing.
  Called with one or more files, it replaces the whole batch by one fresh record per
  file, each Idle with an empty new name, and replaces the log by the single entry
  that reports the load.
\<close>

theorem handleFilesSelected_spec:
  "(files = [] \<longrightarrow> handleFilesSelected files s = s) \<and>
   (files \<noteq> [] \<longrightarrow>
      handleFilesSelected files s =
        s\<lparr>results := map newRecord files,
          logs := [\<lparr>message_l = ''Loaded '' @ show_nat (length files)
                      @ '' PDF file(s). Ready for processing.'', type_l = T_info\<rparr>]\<rparr>
      \<and> (\<forall>r \<in> set (results (handleFilesSelected files s)). status r = Idle \<and> newName r = []))"
  by (auto simp: handleFilesSelected_def addLog_def newRecord_def Let_def)

theorem handleFilesSelected_spec_witness:
  "handleFilesSelected [] app_loaded = app_loaded \<and>
   results (handleFilesSelected [file_3, file_1] app_loaded) = [newRecord file_3, newRecord file_1] \<and>
   logs (handleFilesSelected [file_3, file_1] app_loaded) =
     [\<lparr>message_l = ''Loaded 2 PDF file(s). Ready for processing.'', type_l = T_info\<rparr>] \<and>
   status (newRecord file_3) = Idle \<and> newName (newRecord file_3) = []"
proof -
  have ne: "[file_3, file_1] \<noteq> []" by simp
  have a: "handleFilesSelected [] app_loaded = app_loaded"
    using handleFilesSelected_spec[of "[]" app_loaded] by simp
  have b: "handleFilesSelected [file_3, file_1] app_loaded =
      app_loaded\<lparr>results := map newRecord [file_3, file_1],
        logs := [\<lparr>message_l = ''Loaded '' @ show_nat (length [file_3, file_1])
                      @ '' PDF file(s). Ready for processing.'', type_l = T_info\<rparr>]\<rparr>"
    and c: "\<forall>r \<in> set (results (handleFilesSelected [file_3, file_1] app_loaded)).
        status r = Idle \<and> newName r = []"
    using handleFilesSelected_spec[of "[file_3, file_1]" app_loaded] ne by blast+
  have d: "results (handleFilesSelected [file_3, file_1] app_loaded) = [newRecord file_3, newRecord file_1]"
    by (simp add: b)
  have e: "logs (handleFilesSelected [file_3, file_1] app_loaded) =
     [\<lparr>message_l = ''Loaded 2 PDF file(s). Ready for processing.'', type_l = T_info\<rparr>]"
  proof -
    have n: "show_nat (length [file_3, file_1]) = ''2''" by code_simp
    show ?thesis by (simp only: b n) simp
  qed
  have "newRecord file_3 \<in> set (results (handleFilesSelected [file_3, file_1] app_loaded))"
    by (simp add: d)
  with c have f: "status (newRecord file_3) = Idle \<and> newName (newRecord file_3) = []" by blast
  show ?thesis using a d e f by simp
qed

text \<open>
  Claim C5, as stated: every record of an uploaded batch has an identity of its own.
  The identity is the file name, a hyphen and the modification time; the handler neither
  compares nor deduplicates files, so two files that agree in name and modification time
  (copies of one document in two folders) get the same identity.
\<close>

theorem duplicate_ids_counterexample:
  "\<not> distinct (map id_pf (results (handleFilesSelected [file_1, file_1_copy] app_0)))"
  by (simp add: handleFilesSelected_def addLog_def newRecord_def Let_def file_1_def file_1_copy_def)

text \<open>
  The separator of the identity is also the sign of a negative modification time: two
  files that differ in name and in time can share an identity.
\<close>

lemma negative_time_collision:
  "id_pf (newRecord \<lparr>name = ''a-'', lastModified = 5, content = []\<rparr>)
     = id_pf (newRecord \<lparr>name = ''a'', lastModified = - 5, content = []\<rparr>)"
  by (simp add: newRecord_def show_int_def)

text \<open>
  Claim C5, amended: in a batch created by an upload, the identities are pairwise
  distinct whenever the uploaded files are pairwise distinct in the pair of name and
  modification time, and no modification time is negative (the sign of a negative
  time is the same character as the separator).
\<close>

theorem ids_distinct:
  assumes "files \<noteq> []"
    and "distinct (map (\<lambda>f. (name f, lastModified f)) files)"
    and "\<forall>f \<in> set files. 0 \<le> lastModified f"
  shows "distinct (map id_pf (results (handleFilesSelected files s)))"
proof -
  have r: "results (handleFilesSelected files s) = map newRecord files"
    using assms(1) by (simp add: handleFilesSelected_def addLog_def Let_def)
  have d: "distinct files" and i: "inj_on (\<lambda>f. (name f, lastModified f)) (set files)"
    using assms(2) by (simp_all add: distinct_map)
  have "inj_on (\<lambda>f. id_pf (newRecord f)) (set files)"
  proof (rule inj_onI)
    fix f g assume f: "f \<in> set files" and g: "g \<in> set files"
      and e: "id_pf (newRecord f) = id_pf (newRecord g)"
    have "name f = name g \<and> lastModified f = lastModified g"
      using assms(3) f g e by (intro id_pf_inj) auto
    then show "f = g" using i f g by (auto dest: inj_onD)
  qed
  then show ?thesis using d by (simp add: r distinct_map comp_def)
qed

theorem ids_distinct_witness:
  "[file_1, file_2] \<noteq> [] \<and> distinct (map (\<lambda>f. (name f, lastModified f)) [file_1, file_2]) \<and>
   0 \<le> lastModified file_1 \<and> 0 \<le> lastModified file_2 \<and>
   distinct (map id_pf (results (handleFilesSelected [file_1, file_2] app_0)))"
proof -
  have a: "[file_1, file_2] \<noteq> []" by simp
  have b: "distinct (map (\<lambda>f. (name f, lastModified f)) [file_1, file_2])"
    by (simp add: file_1_def file_2_def)
  have c1: "0 \<le> lastModified file_1" and c2: "0 \<le> lastModified file_2"
    by (simp_all add: file_1_def file_2_def)
  have c: "\<forall>f \<in> set [file_1, file_2]. 0 \<le> lastModified f" using c1 c2 by simp
  show ?thesis using a b c1 c2 ids_distinct[OF a b c, of app_0] by simp
qed

section \<open>Processing\<close>

text \<open>
  Claim C6. Processing an empty batch appends exactly one log entry, of severity error,
  and changes nothing else: the records, the processing flag, the downloads and the
  outside world are as before, in preview mode and in download mode alike.
\<close>

theorem processFiles_empty_batch:
  "results s = [] \<Longrightarrow>
   processFiles sv previewOnly s =
     s\<lparr>logs := logs s @ [\<lparr>message_l = ''No files to process. Please upload PDFs first.'',
                           type_l = T_error\<rparr>]\<rparr>"
  by (simp add: processFiles_def addLog_def)

theorem processFiles_empty_batch_witness:
  "results app_0 = [] \<and>
   processFiles sample_services False app_0 =
     app_0\<lparr>logs := [\<lparr>message_l = ''No files to process. Please upload PDFs first.'',
                           type_l = T_error\<rparr>]\<rparr>"
proof -
  have h: "results app_0 = []" by (simp add: app_0_def)
  have l: "logs app_0 = []" by (simp add: app_0_def)
  show ?thesis using h processFiles_empty_batch[OF h, of sample_services False] by (simp add: l)
qed



text \<open>
  Claim C3. After processing, a record has a non-empty new name if and only if its status
  is Success, and the archive step that may follow leaves the records as they are.
\<close>

theorem newName_iff_Success:
  "(\<forall>r \<in> set (results (processFiles sv previewOnly s)). newName r \<noteq> [] \<longleftrightarrow> status r = Success) \<and>
   results (handleDownloadZip sv t) = results t"
proof (intro conjI ballI)
  fix r assume "r \<in> set (results (processFiles sv previewOnly s))"
  then obtain r0 where "processed_from r0 r" using processed_in_results by blast
  then show "newName r \<noteq> [] \<longleftrightarrow> status r = Success"
    by (auto simp: processed_from_def)
next
  show "results (handleDownloadZip sv t) = results t" by (rule results_handleDownloadZip)
qed

theorem newName_iff_Success_witness:
  "newName (results (processFiles sample_services True app_loaded) ! 0) = ''INV-7.pdf'' \<and>
   status (results (processFiles sample_services True app_loaded) ! 0) = Success \<and>
   newName (results (processFiles sample_services True app_loaded) ! 1) = [] \<and>
   status (results (processFiles sample_services True app_loaded) ! 1) \<noteq> Success"
proof -
  let ?X = "results (processFiles sample_services True app_loaded)"
  have n0: "newName (?X ! 0) = ''INV-7.pdf''" and n1: "newName (?X ! 1) = []"
    by (simp_all add: results_loaded_preview newRecord_def)
  have "length ?X = 5" by (simp add: results_loaded_preview)
  then have m: "?X ! 0 \<in> set ?X" "?X ! 1 \<in> set ?X" by simp_all
  have iff: "\<forall>r \<in> set ?X. newName r \<noteq> [] \<longleftrightarrow> status r = Success"
    using newName_iff_Success[of sample_services True app_loaded] by blast
  have s0: "status (?X ! 0) = Success" using bspec[OF iff m(1)] n0 by simp
  have s1: "status (?X ! 1) \<noteq> Success" using bspec[OF iff m(2)] n1 by simp
  show ?thesis using n0 n1 s0 s1 by simp
qed

text \<open>
  Claim C9. After processing, the new name of every Success record ends in \<open>.pdf\<close>,
  and it is the name the strategy returned for that record followed by \<open>.pdf\<close>,
  whatever the strategy and whatever non-empty string it returned: if, in the state in
  which the loop reaches the record, the extraction returns a non-empty text and the
  strategy a non-empty name \<open>n\<close>, the record ends as Success with the new name
  \<open>n.pdf\<close>; and a record ends as Success only in this way.
\<close>

theorem Success_name_ends_with_pdf:
  "(r \<in> set (results (processFiles sv previewOnly s)) \<and> status r = Success \<longrightarrow>
      (\<exists>n. n \<noteq> [] \<and> newName r = n @ ''.pdf'')) \<and>
   (j < length (results s) \<and>
    extractTextFromPdf sv (originalFile (results s ! j)) (world (stateBefore sv previewOnly s j))
      = (Inr (Some t), w) \<and> t \<noteq> [] \<and>
    getNewFilename sv t (renameMethod s) (customPattern s) (aiInstructions s) w
      = (Inr (Some n), w') \<and> n \<noteq> [] \<longrightarrow>
      status (results (processFiles sv previewOnly s) ! j) = Success \<and>
      newName (results (processFiles sv previewOnly s) ! j) = n @ ''.pdf'') \<and>
   (j < length (results s) \<and> status (results (processFiles sv previewOnly s) ! j) = Success \<longrightarrow>
      (\<exists>t w n w'.
         extractTextFromPdf sv (originalFile (results s ! j))
             (world (stateBefore sv previewOnly s j)) = (Inr (Some t), w) \<and> t \<noteq> [] \<and>
         getNewFilename sv t (renameMethod s) (customPattern s) (aiInstructions s) w
           = (Inr (Some n), w') \<and> n \<noteq> [] \<and>
         newName (results (processFiles sv previewOnly s) ! j) = n @ ''.pdf''))"
proof (intro conjI impI)
  assume "r \<in> set (results (processFiles sv previewOnly s)) \<and> status r = Success"
  then have m: "r \<in> set (results (processFiles sv previewOnly s))" and st: "status r = Success"
    by simp_all
  from m obtain r0 where "processed_from r0 r" using processed_in_results by blast
  then show "\<exists>n. n \<noteq> [] \<and> newName r = n @ ''.pdf''"
    using st by (auto simp: processed_from_def)
next
  let ?u = "stateBefore sv previewOnly s j"
  assume a: "j < length (results s) \<and>
    extractTextFromPdf sv (originalFile (results s ! j)) (world ?u) = (Inr (Some t), w) \<and> t \<noteq> [] \<and>
    getNewFilename sv t (renameMethod s) (customPattern s) (aiInstructions s) w
      = (Inr (Some n), w') \<and> n \<noteq> []"
  then have j: "j < length (results s)" by simp
  note f = stateBefore_facts[of j s sv previewOnly]
  have ju: "j < length (results ?u)" using f j by simp
  have x: "extractTextFromPdf sv (originalFile (results ?u ! j)) (world ?u) = (Inr (Some t), w)"
    using a f j by simp
  have g: "getNewFilename sv t (renameMethod ?u) (customPattern ?u) (aiInstructions ?u) w
      = (Inr (Some n), w')"
    using a f j by simp
  have t: "t \<noteq> []" and n: "n \<noteq> []" using a by simp_all
  show "status (results (processFiles sv previewOnly s) ! j) = Success"
    unfolding processFiles_nth[OF j] by (rule loopBody_Success(1)[OF ju x t g n])
  show "newName (results (processFiles sv previewOnly s) ! j) = n @ ''.pdf''"
    unfolding processFiles_nth[OF j] by (rule loopBody_Success(2)[OF ju x t g n])
next
  let ?u = "stateBefore sv previewOnly s j"
  assume a: "j < length (results s) \<and> status (results (processFiles sv previewOnly s) ! j) = Success"
  then have j: "j < length (results s)" by simp
  note f = stateBefore_facts[of j s sv previewOnly]
  have ju: "j < length (results ?u)" using f j by simp
  have st: "status (results (loopBody sv j ?u) ! j) = Success"
    using a by (simp add: processFiles_nth[OF j])
  from loopBody_Success_only[OF ju st] obtain t w n w' where
    x: "extractTextFromPdf sv (originalFile (results ?u ! j)) (world ?u) = (Inr (Some t), w)"
    and t: "t \<noteq> []"
    and g: "getNewFilename sv t (renameMethod ?u) (customPattern ?u) (aiInstructions ?u) w
      = (Inr (Some n), w')"
    and n: "n \<noteq> []"
    by blast
  have nn: "newName (results (processFiles sv previewOnly s) ! j) = n @ ''.pdf''"
    unfolding processFiles_nth[OF j] by (rule loopBody_Success(2)[OF ju x t g n])
  have x': "extractTextFromPdf sv (originalFile (results s ! j)) (world ?u) = (Inr (Some t), w)"
    using x f j by simp
  have g': "getNewFilename sv t (renameMethod s) (customPattern s) (aiInstructions s) w
      = (Inr (Some n), w')"
    using g f j by simp
  show "\<exists>t w n w'.
         extractTextFromPdf sv (originalFile (results s ! j)) (world ?u) = (Inr (Some t), w) \<and>
         t \<noteq> [] \<and>
         getNewFilename sv t (renameMethod s) (customPattern s) (aiInstructions s) w
           = (Inr (Some n), w') \<and> n \<noteq> [] \<and>
         newName (results (processFiles sv previewOnly s) ! j) = n @ ''.pdf''"
    using x' t g' n nn by blast
qed

lemma world_before_scan2: "world (stateBefore sample_services True app_loaded 3) = 5"
  by (simp add: stateBefore_def upt_rec loopBody_def catchBlock_def setRecord_def addLog_def
      handleFilesSelected_def newRecord_def errorMessage_of_def show_int_def sample_defs Let_def
      show_nat_small show_nat_large digit_eval)

theorem Success_name_ends_with_pdf_witness:
  "3 < length (results app_loaded) \<and>
   extractTextFromPdf sample_services (originalFile (results app_loaded ! 3))
       (world (stateBefore sample_services True app_loaded 3)) = (Inr (Some ''INV-7''), 6) \<and>
   getNewFilename sample_services ''INV-7'' (renameMethod app_loaded) (customPattern app_loaded)
       (aiInstructions app_loaded) 6 = (Inr (Some ''INV-7''), 7) \<and>
   status (results (processFiles sample_services True app_loaded) ! 3) = Success \<and>
   newName (results (processFiles sample_services True app_loaded) ! 3) = ''INV-7'' @ ''.pdf'' \<and>
   results (processFiles sample_services True app_loaded) ! 3
      \<in> set (results (processFiles sample_services True app_loaded)) \<and>
   (\<exists>n. n \<noteq> [] \<and> newName (results (processFiles sample_services True app_loaded) ! 3) = n @ ''.pdf'')"
proof -
  let ?X = "results (processFiles sample_services True app_loaded)"
  have j: "3 < length (results app_loaded)"
    by (simp add: app_loaded_def handleFilesSelected_def addLog_def Let_def)
  have f: "originalFile (results app_loaded ! 3) = file_2"
    by (simp add: app_loaded_def handleFilesSelected_def addLog_def Let_def newRecord_def)
  have x: "extractTextFromPdf sample_services (originalFile (results app_loaded ! 3))
       (world (stateBefore sample_services True app_loaded 3)) = (Inr (Some ''INV-7''), 6)"
    by (simp only: f world_before_scan2) (simp add: sample_services_def file_2_def)
  have g: "getNewFilename sample_services ''INV-7'' (renameMethod app_loaded)
       (customPattern app_loaded) (aiInstructions app_loaded) 6 = (Inr (Some ''INV-7''), 7)"
    by (simp add: sample_services_def)
  have t: "''INV-7'' \<noteq> []" by simp
  note inst = Success_name_ends_with_pdf[of "?X ! 3" sample_services True app_loaded 3
      "''INV-7''" 6 "''INV-7''" 7]
  from inst j x g t have a: "status (?X ! 3) = Success \<and> newName (?X ! 3) = ''INV-7'' @ ''.pdf''"
    by blast
  have "length ?X = 5" by (simp add: results_loaded_preview)
  then have m: "?X ! 3 \<in> set ?X" by simp
  from inst m a have b: "\<exists>n. n \<noteq> [] \<and> newName (?X ! 3) = n @ ''.pdf''" by blast
  show ?thesis using j x g a m b by blast
qed

section \<open>The archive\<close>

lemma snd_zipLoop: "map snd (zipLoop m rs) = map originalFile rs"
  by (induction rs arbitrary: m) (simp_all split: option.splits)

lemma set_update_subset: "set (AList.update k v al) \<subseteq> insert (k, v) (set al)"
  by (induction al) auto

lemma set_zip_calls:
  "set (foldl (\<lambda>z (n, f). zip_file n f z) z0 calls) \<subseteq> set z0 \<union> set calls"
proof (induction calls arbitrary: z0)
  case Nil
  then show ?case by simp
next
  case (Cons c calls)
  obtain n f where c: "c = (n, f)" by (cases c)
  have "set (foldl (\<lambda>z (n, f). zip_file n f z) (zip_file n f z0) calls)
      \<subseteq> set (zip_file n f z0) \<union> set calls"
    by (rule Cons.IH)
  also have "\<dots> \<subseteq> insert (n, f) (set z0) \<union> set calls"
    using set_update_subset[of n f z0] by (auto simp: zip_file_def)
  finally show ?case by (auto simp: c)
qed

lemma zipOf_payloads: "snd ` set (zipOf (zipLoop m rs)) \<subseteq> originalFile ` set rs"
proof -
  have "set (zipOf (zipLoop m rs)) \<subseteq> set (zipLoop m rs)"
    using set_zip_calls[of "[]" "zipLoop m rs"] by (simp add: zipOf_def)
  then have "snd ` set (zipOf (zipLoop m rs)) \<subseteq> snd ` set (zipLoop m rs)" by blast
  also have "\<dots> = set (map snd (zipLoop m rs))" by simp
  also have "\<dots> = originalFile ` set rs" by (simp only: snd_zipLoop) simp
  finally show ?thesis .
qed

text \<open>
  What the archive loop does compute: the record at position \<open>i\<close> is added under its
  computed name when no earlier Success record has the same computed name, and under
  that name with \<open>_k\<close> before the extension when \<open>k\<close> earlier records have it.
\<close>

lemma zipLoop_Cons:
  "zipLoop m (r # rs) =
     (finalName (newName r) (count_of m (newName r)), originalFile r)
       # zipLoop (m(newName r \<mapsto> count_of m (newName r) + 1)) rs"
  by (simp add: finalName_def count_of_def split: option.splits)

lemma count_of_upd:
  "count_of (m(y \<mapsto> count_of m y + 1)) x = count_of m x + (if x = y then 1 else 0)"
  by (simp add: count_of_def)

lemma zipLoop_nth:
  "i < length rs \<Longrightarrow>
   zipLoop m rs ! i =
     (finalName (newName (rs ! i))
        (count_of m (newName (rs ! i))
           + length (filter (\<lambda>r. newName r = newName (rs ! i)) (take i rs))),
      originalFile (rs ! i))"
proof (induction rs arbitrary: m i)
  case Nil
  then show ?case by simp
next
  case (Cons r rs)
  show ?case
  proof (cases i)
    case 0
    then show ?thesis by (simp add: zipLoop_Cons del: zipLoop.simps)
  next
    case (Suc j)
    then have j: "j < length rs" using Cons.prems by simp
    define m' where "m' = m(newName r \<mapsto> count_of m (newName r) + 1)"
    define x where "x = newName (rs ! j)"
    have step: "zipLoop m (r # rs) ! i = zipLoop m' rs ! j"
      unfolding m'_def Suc zipLoop_Cons by simp
    have IH: "zipLoop m' rs ! j =
        (finalName x (count_of m' x + length (filter (\<lambda>r. newName r = x) (take j rs))),
         originalFile (rs ! j))"
      unfolding x_def by (rule Cons.IH[OF j])
    have c: "count_of m' x = count_of m x + (if x = newName r then 1 else 0)"
      unfolding m'_def by (rule count_of_upd)
    have f: "length (filter (\<lambda>r. newName r = x) (take i (r # rs)))
        = (if x = newName r then 1 else 0) + length (filter (\<lambda>r. newName r = x) (take j rs))"
      by (auto simp: Suc)
    have n: "(r # rs) ! i = rs ! j" by (simp add: Suc)
    have "count_of m' x + length (filter (\<lambda>r. newName r = x) (take j rs))
        = count_of m x + length (filter (\<lambda>r. newName r = x) (take i (r # rs)))"
      by (simp only: c f)
    then show ?thesis by (simp only: step IH n x_def)
  qed
qed

lemma zipLoop_final_names:
  assumes "i < length rs"
  shows "fst (zipLoop Map.empty rs ! i) =
     finalName (newName (rs ! i)) (length (filter (\<lambda>r. newName r = newName (rs ! i)) (take i rs)))"
  using zipLoop_nth[OF assms, of Map.empty] by (simp add: count_of_def)

lemma successRecords_processed:
  "successRecords app_processed =
     [(newRecord file_1)\<lparr>newName := ''INV-7.pdf'', status := Success\<rparr>,
      (newRecord file_2)\<lparr>newName := ''INV-7.pdf'', status := Success\<rparr>,
      (newRecord file_3)\<lparr>newName := ''INV-7_1.pdf'', status := Success\<rparr>]"
  by (simp add: successRecords_def app_processed_def results_loaded_preview newRecord_def)

lemma zipLoop_processed:
  "zipLoop Map.empty (successRecords app_processed) =
     [(''INV-7.pdf'', file_1), (''INV-7_1.pdf'', file_2), (''INV-7_1.pdf'', file_3)]"
  by (simp add: successRecords_processed newRecord_def replace_pdf_def show_nat_small digit_eval)

lemma zipOf_processed:
  "zipOf (zipLoop Map.empty (successRecords app_processed)) =
     [(''INV-7.pdf'', file_1), (''INV-7_1.pdf'', file_3)]"
  by (simp add: zipLoop_processed zipOf_def zip_file_def)

text \<open>
  What the archive request does: when no record has status Success, it only appends
  one log entry that says so; no archive is produced and nothing else changes. Otherwise
  it makes one \<^verbatim>\<open>zip.file\<close> call per Success record, in batch order, with that record's
  payload and for no other record; every payload in the archive is the payload of a
  Success record; and the archive offered for download, when its generation succeeds, is
  the one these calls built.
\<close>

lemma handleDownloadZip_selects_Success:
  "(successRecords s = [] \<longrightarrow>
      handleDownloadZip sv s =
        s\<lparr>logs := logs s @
          [\<lparr>message_l = ''No files were successfully renamed to include in a ZIP.'',
            type_l = T_error\<rparr>]\<rparr>) \<and>
   (successRecords s \<noteq> [] \<longrightarrow>
      map snd (zipLoop Map.empty (successRecords s)) = map originalFile (successRecords s) \<and>
      snd ` set (zipOf (zipLoop Map.empty (successRecords s)))
        \<subseteq> originalFile ` set (successRecords s) \<and>
      downloads (handleDownloadZip sv s) =
        (case fst (generateAsync sv (zipOf (zipLoop Map.empty (successRecords s))) (world s)) of
           None \<Rightarrow> downloads s @ [zipOf (zipLoop Map.empty (successRecords s))]
         | Some e \<Rightarrow> downloads s))"
proof (intro conjI impI)
  assume "successRecords s = []"
  then show "handleDownloadZip sv s =
        s\<lparr>logs := logs s @
          [\<lparr>message_l = ''No files were successfully renamed to include in a ZIP.'',
            type_l = T_error\<rparr>]\<rparr>"
    by (simp add: handleDownloadZip_def successRecords_def addLog_def)
next
  show "map snd (zipLoop Map.empty (successRecords s)) = map originalFile (successRecords s)"
    by (rule snd_zipLoop)
next
  show "snd ` set (zipOf (zipLoop Map.empty (successRecords s)))
        \<subseteq> originalFile ` set (successRecords s)"
    by (rule zipOf_payloads)
next
  assume "successRecords s \<noteq> []"
  then show "downloads (handleDownloadZip sv s) =
        (case fst (generateAsync sv (zipOf (zipLoop Map.empty (successRecords s))) (world s)) of
           None \<Rightarrow> downloads s @ [zipOf (zipLoop Map.empty (successRecords s))]
         | Some e \<Rightarrow> downloads s)"
    by (simp add: handleDownloadZip_def successRecords_def addLog_def Let_def
        split: prod.splits option.splits)
qed

text \<open>
  Claim C8. When the construction of the archive fails, the request appends the
  announcement of the archive and then a single entry of severity error that carries
  the failure's message, clears the processing flag, and offers no download; every
  record keeps its status, new name and message.
\<close>

theorem handleDownloadZip_failure:
  assumes "successRecords s \<noteq> []"
    and "generateAsync sv (zipOf (zipLoop Map.empty (successRecords s))) (world s) = (Some e, w)"
  shows "handleDownloadZip sv s =
      s\<lparr>logs := logs s @
          [\<lparr>message_l = ''Creating ZIP archive with '' @ show_nat (length (successRecords s))
               @ '' files...'', type_l = T_info\<rparr>,
           \<lparr>message_l = ''Failed to create ZIP file: ''
               @ errorMessage_of ''An unknown ZIP error occurred.'' e, type_l = T_error\<rparr>],
        isProcessing := False, world := w\<rparr> \<and>
    results (handleDownloadZip sv s) = results s \<and>
    downloads (handleDownloadZip sv s) = downloads s"
  using assms
  by (simp add: handleDownloadZip_def successRecords_def addLog_def Let_def)

theorem handleDownloadZip_failure_witness:
  "successRecords app_processed \<noteq> [] \<and>
   generateAsync failing_zip_services (zipOf (zipLoop Map.empty (successRecords app_processed)))
       (world app_processed) = (Some (ErrorObj ''quota exceeded''), Suc (world app_processed)) \<and>
   results (handleDownloadZip failing_zip_services app_processed) = results app_processed \<and>
   downloads (handleDownloadZip failing_zip_services app_processed) = downloads app_processed \<and>
   logs (handleDownloadZip failing_zip_services app_processed) = logs app_processed @
     [\<lparr>message_l = ''Creating ZIP archive with 3 files...'', type_l = T_info\<rparr>,
      \<lparr>message_l = ''Failed to create ZIP file: quota exceeded'', type_l = T_error\<rparr>]"
proof -
  have ne: "successRecords app_processed \<noteq> []" by (simp add: successRecords_processed)
  have g: "generateAsync failing_zip_services (zipOf (zipLoop Map.empty (successRecords app_processed)))
       (world app_processed) = (Some (ErrorObj ''quota exceeded''), Suc (world app_processed))"
    by (simp add: failing_zip_services_def)
  note t = handleDownloadZip_failure[OF ne g]
  have n: "show_nat (length (successRecords app_processed)) = ''3''"
    by (simp only: successRecords_processed) code_simp
  from t have l: "logs (handleDownloadZip failing_zip_services app_processed) = logs app_processed @
     [\<lparr>message_l = ''Creating ZIP archive with '' @ show_nat (length (successRecords app_processed))
               @ '' files...'', type_l = T_info\<rparr>,
      \<lparr>message_l = ''Failed to create ZIP file: ''
               @ errorMessage_of ''An unknown ZIP error occurred.'' (ErrorObj ''quota exceeded''),
        type_l = T_error\<rparr>]"
    by simp
  have l': "logs (handleDownloadZip failing_zip_services app_processed) = logs app_processed @
     [\<lparr>message_l = ''Creating ZIP archive with 3 files...'', type_l = T_info\<rparr>,
      \<lparr>message_l = ''Failed to create ZIP file: quota exceeded'', type_l = T_error\<rparr>]"
    by (simp only: l n) (simp add: errorMessage_of_def)
  show ?thesis using ne g t l' by simp
qed

lemma results_loaded_download:
  "results (processFiles sample_services False app_loaded) =
     [(newRecord file_1)\<lparr>newName := ''INV-7.pdf'', status := Success\<rparr>,
      (newRecord file_broken)\<lparr>status := Error, message := Some ''Invalid PDF structure''\<rparr>,
      (newRecord file_blank)\<lparr>status := NoMatch\<rparr>,
      (newRecord file_2)\<lparr>newName := ''INV-7.pdf'', status := Success\<rparr>,
      (newRecord file_3)\<lparr>newName := ''INV-7_1.pdf'', status := Success\<rparr>]"
  by (simp add: processFiles_def handleFilesSelected_def loopBody_def catchBlock_def
        setRecord_def addLog_def newRecord_def errorMessage_of_def show_int_def sample_defs
        processLoop.simps Let_def show_nat_small show_nat_large digit_eval
        results_handleDownloadZip)

lemma downloads_loaded_download:
  "downloads (processFiles sample_services False app_loaded) =
     [[(''INV-7.pdf'', file_1), (''INV-7_1.pdf'', file_3)]]"
  by (simp add: processFiles_def handleFilesSelected_def loopBody_def catchBlock_def
        setRecord_def addLog_def newRecord_def errorMessage_of_def show_int_def sample_defs
        processLoop.simps Let_def show_nat_small show_nat_large digit_eval)
     (simp add: handleDownloadZip_def addLog_def zipOf_def zip_file_def replace_pdf_def
        Let_def show_nat_small digit_eval file_1_def file_3_def)

text \<open>
  Claim C7 says that, when some record has status Success, the archive is built from
  exactly the Success records. In the batch below three records are Success, with the
  payloads of \<open>scan1.pdf\<close>, \<open>scan2.pdf\<close> and \<open>scan3.pdf\<close>; the archive offered for
  download holds the first and the third, and the payload of \<open>scan2.pdf\<close> is in no
  entry: the entry added for it was replaced by the entry of the third record, which
  was added under the same name.
\<close>

theorem archive_misses_a_Success_record:
  "map originalFile (successRecords (processFiles sample_services False app_loaded))
     = [file_1, file_2, file_3] \<and>
   downloads (processFiles sample_services False app_loaded) =
     [[(''INV-7.pdf'', file_1), (''INV-7_1.pdf'', file_3)]] \<and>
   file_2 \<notin> snd ` set [(''INV-7.pdf'', file_1), (''INV-7_1.pdf'', file_3)]"
proof -
  have a: "map originalFile (successRecords (processFiles sample_services False app_loaded))
     = [file_1, file_2, file_3]"
    by (simp add: successRecords_def results_loaded_download newRecord_def)
  have b: "file_2 \<notin> snd ` set [(''INV-7.pdf'', file_1), (''INV-7_1.pdf'', file_3)]"
    by (simp add: file_1_def file_2_def file_3_def)
  show ?thesis using a b downloads_loaded_download by simp
qed

text \<open>
  Claim C1 says that records with the same computed name always get distinct final
  names and that no payload is dropped. The loop counts occurrences per computed name
  only, and never looks at the final names it has already handed out. In the batch
  below the strategy returns \<open>INV-7\<close>, \<open>INV-7\<close> and \<open>INV-7_1\<close>: the second record is
  renamed to \<open>INV-7_1.pdf\<close>, the third record has that name as its own computed name,
  both are added under it, and the archive offered for download holds two of the three
  payloads.
\<close>

theorem zip_names_collide:
  "map newName (successRecords app_processed) = [''INV-7.pdf'', ''INV-7.pdf'', ''INV-7_1.pdf''] \<and>
   zipLoop Map.empty (successRecords app_processed) =
     [(''INV-7.pdf'', file_1), (''INV-7_1.pdf'', file_2), (''INV-7_1.pdf'', file_3)] \<and>
   \<not> distinct (map fst (zipLoop Map.empty (successRecords app_processed))) \<and>
   downloads (processFiles sample_services False app_loaded) =
     [[(''INV-7.pdf'', file_1), (''INV-7_1.pdf'', file_3)]]"
proof -
  have a: "map newName (successRecords app_processed)
      = [''INV-7.pdf'', ''INV-7.pdf'', ''INV-7_1.pdf'']"
    by (simp add: successRecords_processed)
  have b: "\<not> distinct (map fst (zipLoop Map.empty (successRecords app_processed)))"
    by (simp add: zipLoop_processed)
  have c: "downloads (processFiles sample_services False app_loaded) =
     [[(''INV-7.pdf'', file_1), (''INV-7_1.pdf'', file_3)]]"
    by (rule downloads_loaded_download)
  show ?thesis using a b c zipLoop_processed by simp
qed

section \<open>Processing again\<close>

text \<open>
  What a second run does forget: started from two states of the same batch that differ
  only in what an earlier run left on the records (status, new name, message), processing
  ends in states that agree on every status and new name, on the log, the downloads and
  the outside world. The message is not part of this agreement.
\<close>

lemma loopBody_agree:
  assumes "i < length (results s)" "length (results s') = length (results s)"
    and "originalFile (results s' ! i) = originalFile (results s ! i)"
    and "originalName (results s' ! i) = originalName (results s ! i)"
    and "world s' = world s" "renameMethod s' = renameMethod s"
    and "customPattern s' = customPattern s" "aiInstructions s' = aiInstructions s"
    and "logs s' = logs s"
  shows "status (results (loopBody sv i s') ! i) = status (results (loopBody sv i s) ! i)"
    and "newName (results (loopBody sv i s') ! i) = newName (results (loopBody sv i s) ! i)"
    and "world (loopBody sv i s') = world (loopBody sv i s)"
    and "logs (loopBody sv i s') = logs (loopBody sv i s)"
  using assms
  by (simp_all add: loopBody_def catchBlock_def setRecord_def addLog_def Let_def
      split: prod.splits sum.splits option.splits)

lemma loopBody_rel:
  assumes "rerun_rel i s s'" "i < length (results s)"
  shows "rerun_rel (Suc i) (loopBody sv i s) (loopBody sv i s')"
proof -
  have len: "length (results s') = length (results s)" using assms(1) by (simp add: rerun_rel_def)
  then have i': "i < length (results s')" using assms(2) by simp
  note a = loopBody_agree[OF assms(2) len, of sv]
  have pre: "originalFile (results s' ! i) = originalFile (results s ! i)"
    "originalName (results s' ! i) = originalName (results s ! i)"
    "world s' = world s" "renameMethod s' = renameMethod s"
    "customPattern s' = customPattern s" "aiInstructions s' = aiInstructions s"
    "logs s' = logs s"
    using assms by (simp_all add: rerun_rel_def)
  note b = a[OF pre]
  have u: "results (loopBody sv i s) = (results s)[i := results (loopBody sv i s) ! i]"
    and u': "results (loopBody sv i s') = (results s')[i := results (loopBody sv i s') ! i]"
    using loopBody_results(1)[OF assms(2)] loopBody_results(1)[OF i'] by blast+
  have p: "processed_from (results s ! i) (results (loopBody sv i s) ! i)"
    and p': "processed_from (results s' ! i) (results (loopBody sv i s') ! i)"
    using loopBody_results(2)[OF assms(2)] loopBody_results(2)[OF i'] by blast+
  have o: "results (loopBody sv i s) ! j = results s ! j" if "j \<noteq> i" for j
    using that by (subst u) simp
  have o': "results (loopBody sv i s') ! j = results s' ! j" if "j \<noteq> i" for j
    using that by (subst u') simp
  show ?thesis
    unfolding rerun_rel_def
  proof (intro conjI allI impI)
    fix j assume j: "j < length (results (loopBody sv i s))"
    then have jl: "j < length (results s)" by (simp add: length_results_loopBody)
    have r: "id_pf (results s' ! j) = id_pf (results s ! j) \<and>
        originalFile (results s' ! j) = originalFile (results s ! j) \<and>
        originalName (results s' ! j) = originalName (results s ! j) \<and>
        (j < i \<longrightarrow> status (results s' ! j) = status (results s ! j) \<and>
                  newName (results s' ! j) = newName (results s ! j))"
      using assms(1) jl by (simp add: rerun_rel_def)
    show "id_pf (results (loopBody sv i s') ! j) = id_pf (results (loopBody sv i s) ! j)"
      using r p p' o[of j] o'[of j] by (cases "j = i") (auto simp: processed_from_def)
    show "originalFile (results (loopBody sv i s') ! j) = originalFile (results (loopBody sv i s) ! j)"
      using r p p' o[of j] o'[of j] by (cases "j = i") (auto simp: processed_from_def)
    show "originalName (results (loopBody sv i s') ! j) = originalName (results (loopBody sv i s) ! j)"
      using r p p' o[of j] o'[of j] by (cases "j = i") (auto simp: processed_from_def)
    assume "j < Suc i"
    then show "status (results (loopBody sv i s') ! j) = status (results (loopBody sv i s) ! j)"
      and "newName (results (loopBody sv i s') ! j) = newName (results (loopBody sv i s) ! j)"
      using r b(1,2) o[of j] o'[of j] by (cases "j = i"; simp)+
  qed (use assms(1) b in \<open>simp_all add: rerun_rel_def length_results_loopBody loopBody_frame\<close>)
qed

lemma processLoop_rel:
  "rerun_rel i s s' \<Longrightarrow> i \<le> length (results s) \<Longrightarrow>
   rerun_rel (length (results s)) (processLoop sv i s) (processLoop sv i s')"
proof (induction sv i s arbitrary: s' rule: processLoop.induct)
  case (1 sv i s)
  have len: "length (results s') = length (results s)" using "1.prems"(1) by (simp add: rerun_rel_def)
  show ?case
  proof (cases "i < length (results s)")
    case False
    then have "i = length (results s)" using "1.prems"(2) by simp
    then show ?thesis using "1.prems"(1) False len by (simp add: processLoop_stop)
  next
    case True
    have s1: "processLoop sv i s = processLoop sv (Suc i) (loopBody sv i s)"
      using True by (rule processLoop_step)
    have s2: "processLoop sv i s' = processLoop sv (Suc i) (loopBody sv i s')"
      using True len by (intro processLoop_step) simp
    have "rerun_rel (length (results (loopBody sv i s)))
        (processLoop sv (Suc i) (loopBody sv i s)) (processLoop sv (Suc i) (loopBody sv i s'))"
      using True by (intro "1.IH"[OF True] loopBody_rel[OF "1.prems"(1)])
                    (simp_all add: length_results_loopBody)
    then show ?thesis by (simp add: s1 s2 length_results_loopBody)
  qed
qed

lemma zipLoop_cong:
  "map (\<lambda>r. (newName r, originalFile r)) rs = map (\<lambda>r. (newName r, originalFile r)) rs' \<Longrightarrow>
   zipLoop m rs = zipLoop m rs'"
proof (induction rs arbitrary: rs' m)
  case Nil
  then show ?case by simp
next
  case (Cons r rs)
  then obtain r' rs1 where rs': "rs' = r' # rs1" by (cases rs') auto
  with Cons.prems have h: "newName r = newName r'" "originalFile r = originalFile r'"
    and t: "map (\<lambda>r. (newName r, originalFile r)) rs = map (\<lambda>r. (newName r, originalFile r)) rs1"
    by simp_all
  have "zipLoop (m(newName r' \<mapsto> count_of m (newName r') + 1)) rs
      = zipLoop (m(newName r' \<mapsto> count_of m (newName r') + 1)) rs1"
    by (rule Cons.IH[OF t])
  then show ?case
    by (simp only: rs' zipLoop_Cons h)
qed

lemma filter_Success_cong:
  "length rs' = length rs \<Longrightarrow>
   \<forall>j < length rs. status (rs' ! j) = status (rs ! j) \<and> newName (rs' ! j) = newName (rs ! j) \<and>
      originalFile (rs' ! j) = originalFile (rs ! j) \<Longrightarrow>
   map (\<lambda>r. (newName r, originalFile r)) (filter (\<lambda>r. status r = Success) rs')
     = map (\<lambda>r. (newName r, originalFile r)) (filter (\<lambda>r. status r = Success) rs)"
proof (induction rs' rs rule: list_induct2)
  case Nil
  then show ?case by simp
next
  case (Cons r' rs' r rs)
  have h: "status r' = status r \<and> newName r' = newName r \<and> originalFile r' = originalFile r"
    using Cons.prems by fastforce
  have "\<forall>j < length rs. status (rs' ! j) = status (rs ! j) \<and> newName (rs' ! j) = newName (rs ! j) \<and>
      originalFile (rs' ! j) = originalFile (rs ! j)"
  proof (intro allI impI)
    fix j assume "j < length rs"
    then have "Suc j < length (r # rs)" by simp
    with Cons.prems have "status ((r' # rs') ! Suc j) = status ((r # rs) ! Suc j) \<and>
        newName ((r' # rs') ! Suc j) = newName ((r # rs) ! Suc j) \<and>
        originalFile ((r' # rs') ! Suc j) = originalFile ((r # rs) ! Suc j)"
      by blast
    then show "status (rs' ! j) = status (rs ! j) \<and> newName (rs' ! j) = newName (rs ! j) \<and>
      originalFile (rs' ! j) = originalFile (rs ! j)"
      by simp
  qed
  then show ?case using Cons.IH h by simp
qed

lemma rerun_rel_addLog: "rerun_rel i s s' \<Longrightarrow> rerun_rel i (addLog m t s) (addLog m t s')"
  by (simp add: rerun_rel_def addLog_def)

lemma rerun_rel_isProcessing:
  "rerun_rel i s s' \<Longrightarrow> rerun_rel i (s\<lparr>isProcessing := b\<rparr>) (s'\<lparr>isProcessing := b\<rparr>)"
  by (simp add: rerun_rel_def)

lemma handleDownloadZip_rel:
  assumes "rerun_rel (length (results s)) s s'"
  shows "rerun_rel (length (results s)) (handleDownloadZip sv s) (handleDownloadZip sv s')"
proof -
  have len: "length (results s') = length (results s)" using assms by (simp add: rerun_rel_def)
  have pw: "\<forall>j < length (results s).
      status (results s' ! j) = status (results s ! j) \<and>
      newName (results s' ! j) = newName (results s ! j) \<and>
      originalFile (results s' ! j) = originalFile (results s ! j)"
    using assms by (simp add: rerun_rel_def)
  have m: "map (\<lambda>r. (newName r, originalFile r)) (filter (\<lambda>r. status r = Success) (results s'))
      = map (\<lambda>r. (newName r, originalFile r)) (filter (\<lambda>r. status r = Success) (results s))"
    by (rule filter_Success_cong[OF len pw])
  have z: "zipLoop Map.empty (filter (\<lambda>r. status r = Success) (results s'))
      = zipLoop Map.empty (filter (\<lambda>r. status r = Success) (results s))"
    by (rule zipLoop_cong[OF m])
  have l: "length (filter (\<lambda>r. status r = Success) (results s'))
      = length (filter (\<lambda>r. status r = Success) (results s))"
    using arg_cong[OF m, of length] by simp
  then have e: "filter (\<lambda>r. status r = Success) (results s') = []
      \<longleftrightarrow> filter (\<lambda>r. status r = Success) (results s) = []"
    by (metis length_0_conv)
  have w: "world s' = world s" using assms by (simp add: rerun_rel_def)
  show ?thesis
  proof (cases "filter (\<lambda>r. status r = Success) (results s) = []")
    case True
    then show ?thesis using assms e
      by (simp add: handleDownloadZip_def rerun_rel_addLog)
  next
    case False
    then have False': "filter (\<lambda>r. status r = Success) (results s') \<noteq> []" using e by simp
    show ?thesis using assms False False'
      by (simp add: handleDownloadZip_def Let_def z l w addLog_def rerun_rel_def
          split: prod.splits option.splits)
  qed
qed

lemma reprocessing_forgets_status_and_name:
  assumes "rerun_rel 0 s s'"
  shows "rerun_rel (length (results s)) (processFiles sv p s) (processFiles sv p s')"
proof (cases "results s = []")
  case True
  then have "results s' = []" using assms by (simp add: rerun_rel_def)
  then show ?thesis using True assms by (simp add: processFiles_def rerun_rel_addLog)
next
  case False
  then have False': "results s' \<noteq> []" using assms by (auto simp: rerun_rel_def)
  define m where "m = (if p then ''Starting rename PREVIEW...''
      else ''Starting file processing for download...'')"
  define s2 where "s2 = addLog m T_info (s\<lparr>isProcessing := True\<rparr>)"
  define s2' where "s2' = addLog m T_info (s'\<lparr>isProcessing := True\<rparr>)"
  have r2: "results s2 = results s" by (simp add: s2_def addLog_def)
  have "rerun_rel 0 s2 s2'"
    unfolding s2_def s2'_def by (intro rerun_rel_addLog rerun_rel_isProcessing assms)
  then have "rerun_rel (length (results s2)) (processLoop sv 0 s2) (processLoop sv 0 s2')"
    by (rule processLoop_rel) simp
  then have a: "rerun_rel (length (results s))
      ((addLog ''Processing complete.'' T_info (processLoop sv 0 s2))\<lparr>isProcessing := False\<rparr>)
      ((addLog ''Processing complete.'' T_info (processLoop sv 0 s2'))\<lparr>isProcessing := False\<rparr>)"
    unfolding r2 by (intro rerun_rel_addLog rerun_rel_isProcessing)
  have n: "length (results ((addLog ''Processing complete.'' T_info
      (processLoop sv 0 s2))\<lparr>isProcessing := False\<rparr>)) = length (results s)"
    using processLoop_results[of 0 s2 sv] by (simp add: addLog_def r2)
  have b: "rerun_rel (length (results s))
      (handleDownloadZip sv ((addLog ''Processing complete.'' T_info (processLoop sv 0 s2))\<lparr>isProcessing := False\<rparr>))
      (handleDownloadZip sv ((addLog ''Processing complete.'' T_info (processLoop sv 0 s2'))\<lparr>isProcessing := False\<rparr>))"
    using handleDownloadZip_rel[of "(addLog ''Processing complete.'' T_info (processLoop sv 0 s2))\<lparr>isProcessing := False\<rparr>"]
      a by (simp only: n)
  have e: "processFiles sv p s = (if p then
        (addLog ''Processing complete.'' T_info (processLoop sv 0 s2))\<lparr>isProcessing := False\<rparr>
      else handleDownloadZip sv
        ((addLog ''Processing complete.'' T_info (processLoop sv 0 s2))\<lparr>isProcessing := False\<rparr>))"
    using False by (simp add: processFiles_def Let_def s2_def m_def)
  have e': "processFiles sv p s' = (if p then
        (addLog ''Processing complete.'' T_info (processLoop sv 0 s2'))\<lparr>isProcessing := False\<rparr>
      else handleDownloadZip sv
        ((addLog ''Processing complete.'' T_info (processLoop sv 0 s2'))\<lparr>isProcessing := False\<rparr>))"
    using False' by (simp add: processFiles_def Let_def s2'_def m_def)
  show ?thesis using a b by (simp add: e e')
qed

text \<open>
  Claim C4 says that a second run leaves nothing of the first run on a record. The
  reset at the head of the loop assigns the status and the new name, not the message.
  Below, the first run fails on a document (the extraction throws), the second run
  succeeds on it: the record ends as Success and still carries the first run's error
  message, where the same document processed for the first time has none.
\<close>

theorem reprocess_keeps_stale_message:
  "results app_failed_once =
     [(newRecord file_1)\<lparr>status := Error, message := Some ''Failed to fetch''\<rparr>] \<and>
   results (processFiles sample_services True app_failed_once) =
     [(newRecord file_1)\<lparr>newName := ''INV-7.pdf'', status := Success,
        message := Some ''Failed to fetch''\<rparr>] \<and>
   results (processFiles sample_services True (handleFilesSelected [file_1] app_0)) =
     [(newRecord file_1)\<lparr>newName := ''INV-7.pdf'', status := Success\<rparr>] \<and>
   message (newRecord file_1) = None"
proof -
  have a: "results app_failed_once =
     [(newRecord file_1)\<lparr>status := Error, message := Some ''Failed to fetch''\<rparr>]"
    by (simp add: app_failed_once_def App_defs sample_defs processLoop.simps Let_def
        show_nat_small show_nat_large digit_eval)
  have b: "results (processFiles sample_services True app_failed_once) =
     [(newRecord file_1)\<lparr>newName := ''INV-7.pdf'', status := Success,
        message := Some ''Failed to fetch''\<rparr>]"
    by (simp add: app_failed_once_def App_defs sample_defs processLoop.simps Let_def
        show_nat_small show_nat_large digit_eval)
  have c: "results (processFiles sample_services True (handleFilesSelected [file_1] app_0)) =
     [(newRecord file_1)\<lparr>newName := ''INV-7.pdf'', status := Success\<rparr>]"
    by (simp add: App_defs sample_defs processLoop.simps Let_def
        show_nat_small show_nat_large digit_eval)
  show ?thesis using a b c by (simp add: newRecord_def)
qed

end
